theory Spec2Isabelle
  imports Complex_Main "HOL-Library.AList" "HOL-Library.FSet"
begin

section \<open>Data model\<close>

text \<open>
  The program under study is \<^verbatim>\<open>src/pagerank/pagerank.py\<close>. A page is a file name.
  A Python \<^verbatim>\<open>dict\<close> keeps its keys in insertion order and holds each key once, so a
  dictionary is an association list whose keys are distinct; a Python \<^verbatim>\<open>set\<close> is a
  finite set. Floating-point numbers are modelled by exact reals: every statement below
  is about exact arithmetic.
\<close>

datatype error = KeyError | IndexError | ZeroDivisionError | ValueError

type_synonym page = string
type_synonym 'v dict = "(page \<times> 'v) list"
type_synonym graph = "page fset dict"
type_synonym ranks = "real dict"

text \<open>\<^verbatim>\<open>d.keys()\<close>, \<^verbatim>\<open>d.values()\<close>, \<^verbatim>\<open>d[k]\<close> (raising on a missing key) and
  \<^verbatim>\<open>d[k] = v\<close> (overwriting in place, or appending a new key).\<close>

definition keys :: "'v dict \<Rightarrow> page list" where
  "keys d = map fst d"

definition dict_values :: "'v dict \<Rightarrow> 'v list" where
  "dict_values d = map snd d"

definition getitem :: "'v dict \<Rightarrow> page \<Rightarrow> error + 'v" where
  "getitem d k = (case map_of d k of None \<Rightarrow> Inl KeyError | Some v \<Rightarrow> Inr v)"

definition setitem :: "'v dict \<Rightarrow> page \<Rightarrow> 'v \<Rightarrow> 'v dict" where
  "setitem d k v = AList.update k v d"

text \<open>Python's true division \<^verbatim>\<open>a / b\<close>.\<close>

definition py_div :: "real \<Rightarrow> real \<Rightarrow> error + real" where
  "py_div a b = (if b = 0 then Inl ZeroDivisionError else Inr (a / b))"

text \<open>Sequencing of statements that may raise: the first exception ends the run.\<close>

definition bind_res :: "error + 'a \<Rightarrow> ('a \<Rightarrow> error + 'b) \<Rightarrow> error + 'b" where
  "bind_res m f = (case m of Inl e \<Rightarrow> Inl e | Inr x \<Rightarrow> f x)"

text \<open>A \<^verbatim>\<open>for x in xs: body\<close> loop over a list, threading the variables the body
  assigns.\<close>

fun for_each :: "'a list \<Rightarrow> ('a \<Rightarrow> 's \<Rightarrow> error + 's) \<Rightarrow> 's \<Rightarrow> error + 's" where
  "for_each [] body s = Inr s"
| "for_each (x # xs) body s = bind_res (body x s) (for_each xs body)"

section \<open>The transition model\<close>

text \<open>
  \<^verbatim>\<open>
  def transition_model(corpus, page, damping_factor):
      links = corpus[page]
      probability = {}
      anti = 1 - damping_factor
      for i in corpus.keys():
          probability[i] = anti / len(corpus)
      if len(links) == 0:
          for i in corpus.keys():
              probability[i] = 1 / len(corpus)
          return probability
      for link in links:
          probability[link] += damping_factor / len(links)
      return probability
  \<close>
  The last loop runs over a set, whose iteration order Python leaves open. Each round
  reads and writes the entry of its own link only, so the resulting dictionary is the
  same for every order: the entry of each page in \<open>links\<close> grows by
  \<open>damping_factor / len(links)\<close>, and a link that is no key of \<open>probability\<close> raises
  \<open>KeyError\<close>. The loop is modelled by that effect. Its body runs only for a
  non-empty \<open>links\<close>, which is the case on this path.
\<close>

definition add_to_links :: "page fset \<Rightarrow> real \<Rightarrow> ranks \<Rightarrow> error + ranks" where
  "add_to_links links damping_factor probability =
     (if \<not> links |\<subseteq>| fset_of_list (keys probability) then Inl KeyError
      else bind_res (py_div damping_factor (real (fcard links))) (\<lambda>w.
           Inr (map (\<lambda>(k, v). (k, if k |\<in>| links then v + w else v)) probability)))"

definition transition_model :: "graph \<Rightarrow> page \<Rightarrow> real \<Rightarrow> error + ranks" where
  "transition_model corpus page damping_factor =
     bind_res (getitem corpus page) (\<lambda>links.
     let anti = 1 - damping_factor in
     bind_res (for_each (keys corpus)
                 (\<lambda>i probability. bind_res (py_div anti (real (length corpus)))
                    (\<lambda>v. Inr (setitem probability i v))) []) (\<lambda>probability.
     if fcard links = 0 then
       for_each (keys corpus)
         (\<lambda>i probability. bind_res (py_div 1 (real (length corpus)))
            (\<lambda>v. Inr (setitem probability i v))) probability
     else add_to_links links damping_factor probability))"

text \<open>The Graph of the specification: every link of every page is itself a page. The keys
  of a dictionary are distinct.\<close>

definition wf_graph :: "graph \<Rightarrow> bool" where
  "wf_graph corpus \<longleftrightarrow>
     distinct (keys corpus) \<and>
     list_all (\<lambda>(k, links). links |\<subseteq>| fset_of_list (keys corpus)) corpus"

section \<open>The sampling estimator\<close>

text \<open>
  \<^verbatim>\<open>
  def sample_pagerank(corpus, damping_factor, n):
      pageRank = {}
      samples = []
      samples.append(random.choice(list(corpus.keys())))
      for i in range(n):
          probability = transition_model(corpus, samples[i], damping_factor)
          nextPage = numpy.random.choice(list(probability.keys()), p = list(probability.values()))
          samples.append(nextPage)
      for page in corpus.keys():
          pageRank[page] = samples.count(page) / len(samples)
      return pageRank
  \<close>
  The two random draws come from libraries outside the repository. The model takes the
  random numbers as a parameter \<open>rnd\<close>: draw number \<open>k\<close> of a run uses \<open>rnd k\<close>, so
  that a run is a function of the random numbers and every outcome a draw can have is
  the outcome for some \<open>rnd\<close>.

  \<^verbatim>\<open>random.choice(seq)\<close> raises \<open>IndexError\<close> on an empty sequence and returns one of
  its elements otherwise.
\<close>

definition random_choice :: "nat \<Rightarrow> 'a list \<Rightarrow> error + 'a" where
  "random_choice r xs = (if xs = [] then Inl IndexError else Inr (xs ! (r mod length xs)))"

text \<open>
  \<^verbatim>\<open>numpy.random.choice(a, p=p)\<close> raises \<open>ValueError\<close> when \<open>a\<close> is empty, when \<open>p\<close>
  has another length than \<open>a\<close>, when a weight is negative and when the weights do not
  sum to 1; otherwise it returns an element of \<open>a\<close> whose weight is positive.
\<close>

definition numpy_random_choice :: "nat \<Rightarrow> 'a list \<Rightarrow> real list \<Rightarrow> error + 'a" where
  "numpy_random_choice r a p =
     (if a = [] \<or> length p \<noteq> length a \<or> list_ex (\<lambda>w. w < 0) p \<or> sum_list p \<noteq> 1
      then Inl ValueError
      else let support = map fst (filter (\<lambda>(x, w). 0 < w) (zip a p))
           in Inr (support ! (r mod length support)))"

text \<open>\<^verbatim>\<open>xs[i]\<close> for an index \<open>i \<ge> 0\<close>.\<close>

definition list_index :: "'a list \<Rightarrow> nat \<Rightarrow> error + 'a" where
  "list_index xs i = (if i < length xs then Inr (xs ! i) else Inl IndexError)"

text \<open>The visit record \<open>samples\<close> at the end of the first loop; \<open>range(n)\<close> is empty
  for \<open>n \<le> 0\<close>.\<close>

definition sample_walk :: "graph \<Rightarrow> real \<Rightarrow> int \<Rightarrow> (nat \<Rightarrow> nat) \<Rightarrow> error + page list" where
  "sample_walk corpus damping_factor n rnd =
     bind_res (random_choice (rnd 0) (keys corpus)) (\<lambda>first.
     for_each [0..<nat n]
       (\<lambda>i samples.
          bind_res (list_index samples i) (\<lambda>current.
          bind_res (transition_model corpus current damping_factor) (\<lambda>probability.
          bind_res (numpy_random_choice (rnd (Suc i)) (keys probability) (dict_values probability))
            (\<lambda>nextPage. Inr (samples @ [nextPage])))))
       [first])"

definition sample_pagerank :: "graph \<Rightarrow> real \<Rightarrow> int \<Rightarrow> (nat \<Rightarrow> nat) \<Rightarrow> error + ranks" where
  "sample_pagerank corpus damping_factor n rnd =
     bind_res (sample_walk corpus damping_factor n rnd) (\<lambda>samples.
     for_each (keys corpus)
       (\<lambda>page pageRank.
          bind_res (py_div (real (count_list samples page)) (real (length samples)))
            (\<lambda>v. Inr (setitem pageRank page v)))
       [])"

section \<open>The iterative estimator\<close>

text \<open>
  \<^verbatim>\<open>
  def iterate_pagerank(corpus, damping_factor):
      pageRank = {}
      for page in corpus.keys():
          pageRank[page] = 1 / len(corpus)
      n = len(corpus)
      d = damping_factor
      algConst = (1 - d) / n
      while True:
          prevRank = pageRank.copy()
          for page in pageRank:
              sumAlg = 0 # Assumes no incoming links
              for link in corpus.keys():
                  if len(corpus[link]) == 0:
                      corpus[link] = corpus.keys()
                  if page in corpus[link]:
                      iterative = pageRank[link] / len(corpus[link])
                      sumAlg += iterative
              pageRank[page] = algConst + d * sumAlg
          # break out if error is less than .001
          max_change = -10000
          for page in pageRank:
              if abs(prevRank[page] - pageRank[page]) > max_change:
                  max_change = abs(prevRank[page] - pageRank[page])
          if max_change < 0.001:
              break
      return pageRank
  \<close>
  The function writes to two dictionaries: its own \<open>pageRank\<close> and the caller's
  \<open>corpus\<close>. Both are threaded through the model as state, and the model returns the
  final \<open>corpus\<close> beside \<open>pageRank\<close>, which is what the caller's graph holds after the
  call. \<^verbatim>\<open>corpus.keys()\<close> stored as a value is a view of the keys of \<open>corpus\<close>; the
  function never adds or removes a key, so the view is the set of keys.

  The body of \<^verbatim>\<open>for link in corpus.keys()\<close>, for the page being updated:
\<close>

definition link_body :: "page \<Rightarrow> ranks \<Rightarrow> page \<Rightarrow> graph \<times> real \<Rightarrow> error + graph \<times> real" where
  "link_body page pageRank link = (\<lambda>(corpus, sumAlg).
     bind_res (getitem corpus link) (\<lambda>out.
     let corpus = (if fcard out = 0 then setitem corpus link (fset_of_list (keys corpus))
                   else corpus) in
     bind_res (getitem corpus link) (\<lambda>out.
     if page |\<in>| out then
       bind_res (getitem pageRank link) (\<lambda>r.
       bind_res (py_div r (real (fcard out))) (\<lambda>iterative.
       Inr (corpus, sumAlg + iterative)))
     else Inr (corpus, sumAlg))))"

text \<open>The body of \<^verbatim>\<open>for page in pageRank\<close>: it reads and writes the one dictionary
  \<open>pageRank\<close>.\<close>

definition page_body :: "real \<Rightarrow> real \<Rightarrow> page \<Rightarrow> graph \<times> ranks \<Rightarrow> error + graph \<times> ranks" where
  "page_body d algConst page = (\<lambda>(corpus, pageRank).
     bind_res (for_each (keys corpus) (link_body page pageRank) (corpus, 0)) (\<lambda>(corpus, sumAlg).
     Inr (corpus, setitem pageRank page (algConst + d * sumAlg))))"

text \<open>The loop that computes \<open>max_change\<close>.\<close>

definition max_change_of :: "ranks \<Rightarrow> ranks \<Rightarrow> error + real" where
  "max_change_of prevRank pageRank =
     for_each (keys pageRank)
       (\<lambda>page max_change.
          bind_res (getitem prevRank page) (\<lambda>a.
          bind_res (getitem pageRank page) (\<lambda>b.
          Inr (if \<bar>a - b\<bar> > max_change then \<bar>a - b\<bar> else max_change))))
       (- 10000)"

text \<open>One round of \<^verbatim>\<open>while True\<close>, up to the test: the state after it and
  \<open>max_change\<close>.\<close>

definition one_pass :: "real \<Rightarrow> real \<Rightarrow> graph \<times> ranks \<Rightarrow> error + (graph \<times> ranks) \<times> real" where
  "one_pass d algConst = (\<lambda>(corpus, pageRank).
     let prevRank = pageRank in
     bind_res (for_each (keys pageRank) (page_body d algConst) (corpus, pageRank)) (\<lambda>(corpus, pageRank).
     bind_res (max_change_of prevRank pageRank) (\<lambda>max_change.
     Inr ((corpus, pageRank), max_change))))"

text \<open>The loop has no bound on its rounds; a run that never leaves it has no result,
  which is the value \<open>None\<close>.\<close>

partial_function (option) while_loop ::
  "real \<Rightarrow> real \<Rightarrow> graph \<times> ranks \<Rightarrow> (error + graph \<times> ranks) option" where
  "while_loop d algConst s =
     (case one_pass d algConst s of
        Inl e \<Rightarrow> Some (Inl e)
      | Inr (s', max_change) \<Rightarrow>
          if max_change < 1 / 1000 then Some (Inr s') else while_loop d algConst s')"

declare while_loop.simps [code]

definition iterate_pagerank :: "graph \<Rightarrow> real \<Rightarrow> (error + graph \<times> ranks) option" where
  "iterate_pagerank corpus damping_factor =
     (case for_each (keys corpus)
             (\<lambda>page pageRank. bind_res (py_div 1 (real (length corpus)))
                (\<lambda>v. Inr (setitem pageRank page v))) [] of
        Inl e \<Rightarrow> Some (Inl e)
      | Inr pageRank \<Rightarrow>
          let n = real (length corpus); d = damping_factor in
          (case py_div (1 - d) n of
             Inl e \<Rightarrow> Some (Inl e)
           | Inr algConst \<Rightarrow> while_loop d algConst (corpus, pageRank)))"

section \<open>The iteration of the specification, and the in-place pass\<close>

text \<open>
  The Effective Outbound View of the specification: the graph in which the outbound set
  of every dangling page is the set of all pages.
\<close>

definition effective_outbound :: "graph \<Rightarrow> graph" where
  "effective_outbound corpus =
     map (\<lambda>(q, out). (q, if fcard out = 0 then fset_of_list (keys corpus) else out)) corpus"

text \<open>The rank a vector gives a page, and the sum of the recurrence: over the pages
  \<open>q\<close> whose outbound set in the view contains \<open>p\<close>, the rank of \<open>q\<close> divided by the
  size of that set.\<close>

definition rank_of :: "ranks \<Rightarrow> page \<Rightarrow> real" where
  "rank_of pageRank q = (case map_of pageRank q of None \<Rightarrow> 0 | Some r \<Rightarrow> r)"

definition incoming_sum :: "graph \<Rightarrow> ranks \<Rightarrow> page \<Rightarrow> real" where
  "incoming_sum view pageRank p =
     (\<Sum>(q, out)\<leftarrow>view. if p |\<in>| out then rank_of pageRank q / real (fcard out) else 0)"

text \<open>
  The iteration step in the specification's words: every page at once, from the previous
  vector only, \<open>rank'(p) = (1 - d) / N + d * sum\<close>.
\<close>

definition simultaneous_pass :: "graph \<Rightarrow> real \<Rightarrow> ranks \<Rightarrow> ranks" where
  "simultaneous_pass corpus d pageRank =
     map (\<lambda>(p, r). (p, (1 - d) / real (length corpus)
                        + d * incoming_sum (effective_outbound corpus) pageRank p)) pageRank"

text \<open>
  The same formula applied to one page after the other, each result stored in the vector
  before the next page is computed.
\<close>

definition in_place_step :: "graph \<Rightarrow> real \<Rightarrow> real \<Rightarrow> page \<Rightarrow> ranks \<Rightarrow> ranks" where
  "in_place_step view d algConst p pageRank =
     setitem pageRank p (algConst + d * incoming_sum view pageRank p)"

definition in_place_pass :: "graph \<Rightarrow> real \<Rightarrow> ranks \<Rightarrow> ranks" where
  "in_place_pass corpus d pageRank =
     fold (in_place_step (effective_outbound corpus) d ((1 - d) / real (length corpus)))
       (keys pageRank) pageRank"


section \<open>Dictionaries and loops\<close>

lemma bind_res_simps [simp]:
  "bind_res (Inl e) f = Inl e" "bind_res (Inr x) f = f x"
  by (simp_all add: bind_res_def)

lemma setitem_fresh: "k \<notin> set (keys d) \<Longrightarrow> setitem d k v = d @ [(k, v)]"
  unfolding setitem_def keys_def by (induction d) auto

lemma map_replace_absent:
  "k \<notin> fst ` set d \<Longrightarrow> map (\<lambda>(k', v'). (k', if k' = k then v else v')) d = d"
  by (induction d) auto

lemma setitem_present:
  "k \<in> set (keys d) \<Longrightarrow> distinct (keys d) \<Longrightarrow>
   setitem d k v = map (\<lambda>(k', v'). (k', if k' = k then v else v')) d"
  unfolding setitem_def keys_def by (induction d) (auto simp: map_replace_absent)

lemma keys_setitem_present: "k \<in> set (keys d) \<Longrightarrow> keys (setitem d k v) = keys d"
  unfolding setitem_def keys_def by (induction d) auto

lemma store_loop:
  "distinct ks \<Longrightarrow> set ks \<inter> set (keys acc) = {} \<Longrightarrow> b \<noteq> 0 \<or> ks = [] \<Longrightarrow>
   for_each ks (\<lambda>i d. bind_res (py_div (f i) b) (\<lambda>v. Inr (setitem d i v))) acc
     = Inr (acc @ map (\<lambda>k. (k, f k / b)) ks)"
proof (induction ks arbitrary: acc)
  case Nil
  then show ?case by simp
next
  case (Cons k ks)
  from Cons.prems have b: "b \<noteq> 0" and fresh: "k \<notin> set (keys acc)" by auto
  have step: "setitem acc k (f k / b) = acc @ [(k, f k / b)]"
    using fresh by (rule setitem_fresh)
  have "set ks \<inter> set (keys (acc @ [(k, f k / b)])) = {}"
    using Cons.prems by (auto simp: keys_def)
  with Cons.IH [of "acc @ [(k, f k / b)]"] Cons.prems b
  show ?case by (simp add: py_div_def step)
qed

lemma overwrite_loop:
  "set ks \<subseteq> set (keys acc) \<Longrightarrow> distinct (keys acc) \<Longrightarrow> b \<noteq> 0 \<or> ks = [] \<Longrightarrow>
   for_each ks (\<lambda>i probability. bind_res (py_div a b) (\<lambda>v. Inr (setitem probability i v))) acc
     = Inr (map (\<lambda>(k, v). (k, if k \<in> set ks then a / b else v)) acc)"
proof (induction ks arbitrary: acc)
  case Nil
  then show ?case by simp
next
  case (Cons k ks)
  let ?acc' = "map (\<lambda>(k', v'). (k', if k' = k then a / b else v')) acc"
  from Cons.prems have b: "b \<noteq> 0" and k: "k \<in> set (keys acc)" by auto
  have step: "setitem acc k (a / b) = ?acc'"
    using k Cons.prems(2) by (rule setitem_present)
  have keys': "keys ?acc' = keys acc"
    by (simp add: keys_def comp_def case_prod_unfold)
  have "for_each ks (\<lambda>i probability. bind_res (py_div a b) (\<lambda>v. Inr (setitem probability i v))) ?acc'
     = Inr (map (\<lambda>(k, v). (k, if k \<in> set ks then a / b else v)) ?acc')"
    using Cons.prems b by (intro Cons.IH) (auto simp: keys')
  then show ?case using b
    by (simp add: py_div_def step comp_def case_prod_unfold)
qed


lemma getitem_Some: "map_of d k = Some v \<Longrightarrow> getitem d k = Inr v"
  by (simp add: getitem_def)

lemma getitem_None: "map_of d k = None \<Longrightarrow> getitem d k = Inl KeyError"
  by (simp add: getitem_def)

lemma length_keys [simp]: "length (keys d) = length d"
  by (simp add: keys_def)

lemma initial_probability:
  "distinct (keys corpus) \<Longrightarrow>
   for_each (keys corpus)
     (\<lambda>i probability. bind_res (py_div a (real (length corpus)))
        (\<lambda>v. Inr (setitem probability i v))) []
   = Inr (map (\<lambda>k. (k, a / real (length corpus))) (keys corpus))"
  using store_loop [of "keys corpus" "[]" "real (length corpus)" "\<lambda>i. a"]
  by (cases corpus) (simp_all add: keys_def)

lemma uniform_probability:
  "distinct (keys corpus) \<Longrightarrow>
   for_each (keys corpus)
     (\<lambda>i probability. bind_res (py_div a (real (length corpus)))
        (\<lambda>v. Inr (setitem probability i v))) (map (\<lambda>k. (k, c)) (keys corpus))
   = Inr (map (\<lambda>k. (k, a / real (length corpus))) (keys corpus))"
  using overwrite_loop [of "keys corpus" "map (\<lambda>k. (k, c)) (keys corpus)" "real (length corpus)" a]
  by (cases corpus) (simp_all add: keys_def comp_def)

section \<open>Properties of the transition model\<close>

text \<open>What \<open>transition_model\<close> computes on a dictionary, entry by entry.\<close>

lemma transition_model_eq:
  assumes "distinct (keys corpus)" and "map_of corpus page = Some links"
  shows "transition_model corpus page d =
    (if fcard links = 0 then Inr (map (\<lambda>k. (k, 1 / real (length corpus))) (keys corpus))
     else if \<not> links |\<subseteq>| fset_of_list (keys corpus) then Inl KeyError
     else Inr (map (\<lambda>k. (k, (1 - d) / real (length corpus)
                          + (if k |\<in>| links then d / real (fcard links) else 0)))
                (keys corpus)))"
proof -
  have ne: "fcard links \<noteq> 0 \<Longrightarrow> py_div d (real (fcard links)) = Inr (d / real (fcard links))"
    by (simp add: py_div_def)
  have k: "keys (map (\<lambda>k. (k, c)) (keys corpus)) = keys corpus" for c :: real
    by (simp add: keys_def comp_def)
  show ?thesis
    unfolding transition_model_def Let_def
    by (simp add: getitem_Some [OF assms(2)] initial_probability [OF assms(1)]
        uniform_probability [OF assms(1)] add_to_links_def k ne comp_def)
qed

lemma division_loop_returns:
  "b \<noteq> 0 \<or> ks = [] \<Longrightarrow>
   \<exists>r. for_each ks (\<lambda>i probability. bind_res (py_div a b) (\<lambda>v. Inr (setitem probability i v))) acc = Inr r"
  by (induction ks arbitrary: acc) (auto simp: py_div_def)

lemma add_to_links_no_zero_division:
  "fcard links \<noteq> 0 \<Longrightarrow> add_to_links links d probability \<noteq> Inl ZeroDivisionError"
  by (simp add: add_to_links_def py_div_def)

lemma wf_graph_links:
  assumes "wf_graph corpus" and "page \<in> set (keys corpus)"
  obtains links where "map_of corpus page = Some links"
    and "links |\<subseteq>| fset_of_list (keys corpus)"
proof -
  from assms(2) have "map_of corpus page \<noteq> None"
    by (simp add: map_of_eq_None_iff keys_def)
  then obtain links where m: "map_of corpus page = Some links" by blast
  then have "(page, links) \<in> set corpus" by (rule map_of_SomeD)
  moreover from assms(1) have "\<forall>e\<in>set corpus. snd e |\<subseteq>| fset_of_list (keys corpus)"
    by (simp add: wf_graph_def list_all_iff case_prod_unfold)
  ultimately have "links |\<subseteq>| fset_of_list (keys corpus)" by fastforce
  with m show thesis by (rule that)
qed

lemma sum_list_indicator:
  assumes "distinct ks" and "links |\<subseteq>| fset_of_list ks"
  shows "(\<Sum>k\<leftarrow>ks. if k |\<in>| links then c else 0) = real (fcard links) * c"
proof -
  have "(\<Sum>k\<leftarrow>ks. if k |\<in>| links then c else 0)
      = (\<Sum>k\<leftarrow>filter (\<lambda>k. k |\<in>| links) ks. if k |\<in>| links then c else 0)"
    by (rule sum_list_map_filter [symmetric]) simp
  also have "\<dots> = (\<Sum>k\<leftarrow>filter (\<lambda>k. k |\<in>| links) ks. c)"
    by (rule arg_cong [where f = sum_list]) simp
  also have "\<dots> = real (length (filter (\<lambda>k. k |\<in>| links) ks)) * c"
    by (simp add: sum_list_triv)
  also have "length (filter (\<lambda>k. k |\<in>| links) ks) = card ({k. k |\<in>| links} \<inter> set ks)"
    using assms(1) by (rule distinct_length_filter)
  also have "{k. k |\<in>| links} \<inter> set ks = fset links"
    using assms(2) by (auto simp: fset_of_list.rep_eq less_eq_fset.rep_eq)
  finally show ?thesis by (simp add: fcard.rep_eq)
qed

lemma transition_model_sum:
  assumes "wf_graph corpus" and "page \<in> set (keys corpus)"
  shows "\<exists>probability. transition_model corpus page d = Inr probability
           \<and> keys probability = keys corpus \<and> sum_list (dict_values probability) = 1"
proof -
  from assms obtain links where m: "map_of corpus page = Some links"
    and sub: "links |\<subseteq>| fset_of_list (keys corpus)"
    by (rule wf_graph_links)
  from assms(1) have dk: "distinct (keys corpus)" by (simp add: wf_graph_def)
  from assms(2) have n: "real (length corpus) \<noteq> 0" by (cases corpus) (simp_all add: keys_def)
  show ?thesis
  proof (cases "fcard links = 0")
    case True
    then show ?thesis using n
      by (simp add: transition_model_eq [OF dk m] keys_def dict_values_def comp_def sum_list_triv)
  next
    case False
    have "(\<Sum>k\<leftarrow>keys corpus. (1 - d) / real (length corpus)
             + (if k |\<in>| links then d / real (fcard links) else 0))
        = (\<Sum>k\<leftarrow>keys corpus. (1 - d) / real (length corpus))
          + (\<Sum>k\<leftarrow>keys corpus. if k |\<in>| links then d / real (fcard links) else 0)"
      by (rule sum_list_addf)
    also have "\<dots> = (1 - d) + d"
      using n False by (simp add: sum_list_triv sum_list_indicator [OF dk sub])
    finally show ?thesis using False sub
      by (simp add: transition_model_eq [OF dk m] keys_def dict_values_def comp_def)
  qed
qed

text \<open>
  Claim C4. For a graph (the keys distinct, every link a page of the graph), a page of
  the graph and any damping factor, \<open>transition_model\<close> returns a distribution over the
  pages of the graph whose values sum to 1 in exact arithmetic. The damping factors in
  \<open>[0, 1]\<close> are a special case. A graph with a page is not empty.
\<close>

theorem transition_model_sums_to_one:
  assumes "wf_graph corpus" and "page \<in> set (keys corpus)"
  shows "\<exists>probability. transition_model corpus page d = Inr probability
           \<and> keys probability = keys corpus \<and> sum_list (dict_values probability) = 1"
  using assms by (rule transition_model_sum)

theorem transition_model_sums_to_one_witness:
  "\<exists>probability.
     transition_model [(''a'', {|''b''|}), (''b'', {||})] ''a'' (85 / 100) = Inr probability
     \<and> keys probability = [''a'', ''b''] \<and> sum_list (dict_values probability) = 1"
  using transition_model_sums_to_one [of "[(''a'', {|''b''|}), (''b'', {||})]" "''a''" "85 / 100"]
  by (simp add: wf_graph_def keys_def)

text \<open>
  Claim C5. For a page of the graph whose outbound set is empty and any damping factor,
  \<open>transition_model\<close> returns the uniform distribution: every page of the graph, in
  the order of the keys, with probability \<open>1 / N\<close>, where \<open>N\<close> is the number of pages.
\<close>

theorem transition_model_dangling_uniform:
  assumes "distinct (keys corpus)" and "map_of corpus page = Some {||}"
  shows "transition_model corpus page d
           = Inr (map (\<lambda>k. (k, 1 / real (length corpus))) (keys corpus))"
proof -
  have dangling: "fcard ({||} :: page fset) = 0" by simp
  have "transition_model corpus page d =
    (if fcard ({||} :: page fset) = 0
     then Inr (map (\<lambda>k. (k, 1 / real (length corpus))) (keys corpus))
     else if \<not> {||} |\<subseteq>| fset_of_list (keys corpus) then Inl KeyError
     else Inr (map (\<lambda>k. (k, (1 - d) / real (length corpus)
                          + (if k |\<in>| {||} then d / real (fcard ({||} :: page fset)) else 0)))
                (keys corpus)))"
    by (rule transition_model_eq [OF assms])
  also have "\<dots> = Inr (map (\<lambda>k. (k, 1 / real (length corpus))) (keys corpus))"
    using dangling by (rule if_P)
  finally show ?thesis .
qed

theorem transition_model_dangling_uniform_witness:
  "transition_model [(''a'', {|''b''|}), (''b'', {||})] ''b'' (85 / 100)
     = Inr [(''a'', 1 / 2), (''b'', 1 / 2)]"
  using transition_model_dangling_uniform [of "[(''a'', {|''b''|}), (''b'', {||})]" "''b''" "85 / 100"]
  by (simp add: keys_def)

text \<open>
  Claim C9. \<open>transition_model\<close> never raises \<open>ZeroDivisionError\<close>: the divisions by
  \<open>len(corpus)\<close> run once per page, so only in a graph that has one, and the division
  by \<open>len(links)\<close> is reached only after the test \<open>len(links) == 0\<close> has failed. This
  holds for every input, so for every non-empty graph and every page that is a key.
\<close>

theorem transition_model_no_zero_division:
  "transition_model corpus page d \<noteq> Inl ZeroDivisionError"
proof (cases "map_of corpus page")
  case None
  then show ?thesis by (simp add: transition_model_def getitem_None)
next
  case (Some links)
  then have "corpus \<noteq> []" by auto
  then have n: "real (length corpus) \<noteq> 0" by simp
  obtain p where p: "for_each (keys corpus)
      (\<lambda>i probability. bind_res (py_div (1 - d) (real (length corpus)))
         (\<lambda>v. Inr (setitem probability i v))) [] = Inr p"
    using division_loop_returns [of "real (length corpus)"] n by blast
  obtain u where u: "for_each (keys corpus)
      (\<lambda>i probability. bind_res (py_div 1 (real (length corpus)))
         (\<lambda>v. Inr (setitem probability i v))) p = Inr u"
    using division_loop_returns [of "real (length corpus)"] n by blast
  show ?thesis
    unfolding transition_model_def Let_def
    by (simp add: getitem_Some [OF Some] p u add_to_links_no_zero_division)
qed

section \<open>Properties of the sampling estimator\<close>













lemma count_loop:
  assumes "distinct (keys corpus)" and "samples \<noteq> []"
  shows "for_each (keys corpus)
       (\<lambda>page pageRank.
          bind_res (py_div (real (count_list samples page)) (real (length samples)))
            (\<lambda>v. Inr (setitem pageRank page v))) []
     = Inr (map (\<lambda>page. (page, real (count_list samples page) / real (length samples)))
              (keys corpus))"
  using store_loop [of "keys corpus" "[]" "real (length samples)" "\<lambda>page. real (count_list samples page)"]
    assms by (simp add: keys_def)


lemma append_loop_nonempty:
  assumes "\<And>i s s'. body i s = Inr s' \<Longrightarrow> s' \<noteq> []"
  shows "for_each xs body s = Inr s' \<Longrightarrow> s \<noteq> [] \<Longrightarrow> s' \<noteq> []"
proof (induction xs arbitrary: s)
  case Nil
  then show ?case by simp
next
  case (Cons x xs)
  from Cons.prems(1) obtain t where t: "body x s = Inr t" and r: "for_each xs body t = Inr s'"
    by (cases "body x s") simp_all
  from assms [OF t] have "t \<noteq> []" .
  with Cons.IH [OF r] show ?case .
qed

lemma sample_walk_nonempty:
  assumes "sample_walk corpus d n rnd = Inr samples"
  shows "samples \<noteq> []"
proof -
  let ?body = "\<lambda>i samples.
          bind_res (list_index samples i) (\<lambda>current.
          bind_res (transition_model corpus current d) (\<lambda>probability.
          bind_res (numpy_random_choice (rnd (Suc i)) (keys probability) (dict_values probability))
            (\<lambda>nextPage. Inr (samples @ [nextPage]))))"
  have body: "s' \<noteq> []" if "?body i s = Inr s'" for i s s'
    using that by (auto simp: bind_res_def split: sum.splits)
  from assms obtain first where "for_each [0..<nat n] ?body [first] = Inr samples"
    unfolding sample_walk_def by (cases "random_choice (rnd 0) (keys corpus)") simp_all
  then show ?thesis
  proof (rule append_loop_nonempty [rotated])
    show "[first] \<noteq> []" by simp
  next
    fix i s s'
    assume "?body i s = Inr s'"
    then show "s' \<noteq> []" by (rule body)
  qed
qed



text \<open>
  Claim C10. Whenever \<open>sample_pagerank\<close> returns, the keys of the returned dictionary
  are the keys of the graph, in the same order, and a page that does not occur in the
  visit record has rank 0.
\<close>

theorem sample_pagerank_keys:
  assumes "sample_pagerank corpus d n rnd = Inr pageRank" and "distinct (keys corpus)"
  shows "keys pageRank = keys corpus \<and>
     (\<exists>samples. sample_walk corpus d n rnd = Inr samples \<and>
        (\<forall>page\<in>set (keys corpus). page \<notin> set samples \<longrightarrow> map_of pageRank page = Some 0))"
proof -
  from assms(1) obtain samples where w: "sample_walk corpus d n rnd = Inr samples"
    unfolding sample_pagerank_def by (cases "sample_walk corpus d n rnd") simp_all
  then have ne: "samples \<noteq> []" by (rule sample_walk_nonempty)
  from assms(1) have p: "pageRank =
      map (\<lambda>page. (page, real (count_list samples page) / real (length samples))) (keys corpus)"
    unfolding sample_pagerank_def by (simp add: w count_loop [OF assms(2) ne])
  have "keys pageRank = keys corpus"
    unfolding p by (simp add: keys_def comp_def)
  moreover have "map_of pageRank page = Some 0"
    if "page \<in> set (keys corpus)" and "page \<notin> set samples" for page
    using that unfolding p by (simp add: map_of_map_restrict count_list_0_iff)
  ultimately show ?thesis using w by blast
qed

theorem sample_pagerank_keys_witness:
  "keys [(''a'', 1), (''b'', 0 :: real)] = keys [(''a'', {|''b''|}), (''b'', {||})] \<and>
     (\<exists>samples. sample_walk [(''a'', {|''b''|}), (''b'', {||})] (85 / 100) 0 (\<lambda>i. i) = Inr samples \<and>
        (\<forall>page\<in>set (keys [(''a'', {|''b''|}), (''b'', {||})]).
            page \<notin> set samples \<longrightarrow> map_of [(''a'', 1), (''b'', 0 :: real)] page = Some 0))"
proof -
  have "sample_pagerank [(''a'', {|''b''|}), (''b'', {||})] (85 / 100) 0 (\<lambda>i. i)
          = Inr [(''a'', 1), (''b'', 0)]"
    by (simp add: sample_pagerank_def sample_walk_def random_choice_def keys_def py_div_def
        setitem_def)
  then show ?thesis
    by (rule sample_pagerank_keys) (simp add: keys_def)
qed

text \<open>
  Claim C8 says that a sample count below 1 is rejected with an invalid-parameter error.
  It is not: \<open>range(n)\<close> is empty then, and the estimator returns the ranks of a visit
  record that holds the initial page only.
\<close>

theorem sample_pagerank_accepts_zero_samples:
  "sample_pagerank [(''a'', {|''b''|}), (''b'', {||})] (85 / 100) 0 (\<lambda>i. i)
     = Inr [(''a'', 1), (''b'', 0)] \<and>
   sample_pagerank [(''a'', {|''b''|}), (''b'', {||})] (85 / 100) (- 3) (\<lambda>i. i)
     = Inr [(''a'', 1), (''b'', 0)]"
  by (simp add: sample_pagerank_def sample_walk_def random_choice_def keys_def py_div_def
      setitem_def)

text \<open>
  Claim C8, amended. For a non-empty graph and a sample count below 1 the sampling
  estimator performs the initial draw and no transition, and returns rank 1 for the
  page drawn and rank 0 for every other page.
\<close>

theorem sample_pagerank_no_transitions:
  assumes "n < 1" and "corpus \<noteq> []" and "distinct (keys corpus)"
  shows "sample_walk corpus d n rnd = Inr [keys corpus ! (rnd 0 mod length corpus)] \<and>
     sample_pagerank corpus d n rnd
       = Inr (map (\<lambda>page. (page, if page = keys corpus ! (rnd 0 mod length corpus) then 1 else 0))
                (keys corpus))"
proof -
  from assms(1) have n: "nat n = 0" by simp
  have w: "sample_walk corpus d n rnd = Inr [keys corpus ! (rnd 0 mod length corpus)]"
    using assms(2) by (simp add: sample_walk_def random_choice_def n keys_def)
  show ?thesis
    unfolding sample_pagerank_def
    using count_loop [OF assms(3), of "[keys corpus ! (rnd 0 mod length corpus)]"]
    by (simp add: w)
qed

theorem sample_pagerank_no_transitions_witness:
  "sample_walk [(''a'', {|''b''|}), (''b'', {||})] (85 / 100) (- 3) (\<lambda>i. 1) = Inr [''b''] \<and>
   sample_pagerank [(''a'', {|''b''|}), (''b'', {||})] (85 / 100) (- 3) (\<lambda>i. 1)
     = Inr [(''a'', 0), (''b'', 1)]"
  using sample_pagerank_no_transitions [of "- 3" "[(''a'', {|''b''|}), (''b'', {||})]" "85 / 100" "\<lambda>i. 1"]
  by (simp add: keys_def)

section \<open>Properties of the iterative estimator\<close>

lemma getitem_present: "k \<in> set (keys pr) \<Longrightarrow> getitem pr k = Inr (rank_of pr k)"
  by (auto simp: getitem_def rank_of_def keys_def map_of_eq_None_iff split: option.splits)

lemma map_of_middle:
  "k \<notin> set (keys pre) \<Longrightarrow> map_of (pre @ (k, v) # suf) k = Some v"
  by (induction pre) (auto simp: keys_def)

lemma setitem_middle:
  "k \<notin> set (keys pre) \<Longrightarrow> setitem (pre @ (k, v) # suf) k w = pre @ (k, w) # suf"
  unfolding setitem_def by (induction pre) (auto simp: keys_def)

lemma fcard_member: "p |\<in>| A \<Longrightarrow> real (fcard A) \<noteq> 0"
  by (auto simp: fcard_fempty dest: fcard_0_eq [THEN iffD1] )

lemma link_body_step:
  assumes "k \<notin> set (keys pre)" and "k \<in> set (keys pr)"
    and "K = fset_of_list (keys (pre @ (k, out) # suf))"
  shows "link_body page pr k (pre @ (k, out) # suf, acc)
    = Inr (pre @ (k, if fcard out = 0 then K else out) # suf,
           acc + (if page |\<in>| (if fcard out = 0 then K else out)
                  then rank_of pr k / real (fcard (if fcard out = 0 then K else out)) else 0))"
proof -
  have g: "getitem (pre @ (k, v) # suf) k = Inr v" for v :: "page fset"
    using assms(1) by (intro getitem_Some map_of_middle)
  have u: "setitem (pre @ (k, v) # suf) k w = pre @ (k, w) # suf" for v w :: "page fset"
    using assms(1) by (rule setitem_middle)
  have kk: "fset_of_list (keys (pre @ (k, v) # suf)) = K" for v :: "page fset"
    unfolding assms(3) by (simp add: keys_def)
  show ?thesis
    unfolding link_body_def
    by (simp add: g u kk Let_def getitem_present [OF assms(2)] py_div_def fcard_member)
qed


lemma link_loop:
  assumes "distinct (keys (pre @ suf))" and "keys pr = keys (pre @ suf)"
    and "K = fset_of_list (keys (pre @ suf))"
  shows "for_each (keys suf) (link_body page pr) (pre @ suf, acc)
    = Inr (pre @ map (\<lambda>(q, out). (q, if fcard out = 0 then K else out)) suf,
           acc + (\<Sum>(q, out)\<leftarrow>suf.
                    if page |\<in>| (if fcard out = 0 then K else out)
                    then rank_of pr q / real (fcard (if fcard out = 0 then K else out)) else 0))"
  using assms
proof (induction suf arbitrary: pre acc)
  case Nil
  then show ?case by (simp add: keys_def)
next
  case (Cons e suf)
  obtain k out where e: "e = (k, out)" by (cases e)
  let ?out = "if fcard out = 0 then K else out"
  let ?acc = "acc + (if page |\<in>| ?out then rank_of pr k / real (fcard ?out) else 0)"
  from Cons.prems(1) have fresh: "k \<notin> set (keys pre)" by (auto simp: keys_def e)
  from Cons.prems(2) have present: "k \<in> set (keys pr)" by (simp add: keys_def e)
  have step: "link_body page pr k (pre @ (k, out) # suf, acc)
      = Inr ((pre @ [(k, ?out)]) @ suf, ?acc)"
    using link_body_step [OF fresh present, of K out suf page acc] Cons.prems(3)
    by (simp add: e)
  have same: "keys ((pre @ [(k, ?out)]) @ suf) = keys (pre @ e # suf)"
    by (simp add: keys_def e)
  have rest: "for_each (keys suf) (link_body page pr) ((pre @ [(k, ?out)]) @ suf, ?acc)
    = Inr ((pre @ [(k, ?out)]) @ map (\<lambda>(q, out). (q, if fcard out = 0 then K else out)) suf,
           ?acc + (\<Sum>(q, out)\<leftarrow>suf.
                    if page |\<in>| (if fcard out = 0 then K else out)
                    then rank_of pr q / real (fcard (if fcard out = 0 then K else out)) else 0))"
  proof (rule Cons.IH)
    show "distinct (keys ((pre @ [(k, ?out)]) @ suf))"
      unfolding same by (rule Cons.prems(1))
    show "keys pr = keys ((pre @ [(k, ?out)]) @ suf)"
      unfolding same by (rule Cons.prems(2))
    show "K = fset_of_list (keys ((pre @ [(k, ?out)]) @ suf))"
      unfolding same by (rule Cons.prems(3))
  qed
  have "for_each (keys (e # suf)) (link_body page pr) (pre @ e # suf, acc)
      = for_each (keys suf) (link_body page pr) ((pre @ [(k, ?out)]) @ suf, ?acc)"
    using step by (simp add: keys_def e)
  then show ?case unfolding rest by (simp add: e)
qed

lemma incoming_sum_map:
  "incoming_sum (map (\<lambda>(q, out). (q, f out)) c) pr page
     = (\<Sum>(q, out)\<leftarrow>c. if page |\<in>| f out then rank_of pr q / real (fcard (f out)) else 0)"
  by (induction c) (auto simp: incoming_sum_def)

lemma page_body_eq:
  assumes "distinct (keys corpus)" and "keys pr = keys corpus"
  shows "page_body d algConst page (corpus, pr)
    = Inr (effective_outbound corpus,
           in_place_step (effective_outbound corpus) d algConst page pr)"
proof -
  have "for_each (keys corpus) (link_body page pr) (corpus, 0)
    = Inr (effective_outbound corpus, incoming_sum (effective_outbound corpus) pr page)"
    using link_loop [of "[]" corpus pr "fset_of_list (keys corpus)" page 0] assms
    unfolding effective_outbound_def incoming_sum_map by simp
  then show ?thesis
    by (simp add: page_body_def in_place_step_def)
qed

lemma keys_effective_outbound [simp]: "keys (effective_outbound corpus) = keys corpus"
  by (simp add: effective_outbound_def keys_def comp_def case_prod_unfold)

lemma effective_outbound_idem [simp]:
  "effective_outbound (effective_outbound corpus) = effective_outbound corpus"
proof -
  have "(if fcard (if fcard out = 0 then fset_of_list (keys corpus) else out) = 0
         then fset_of_list (keys corpus)
         else (if fcard out = 0 then fset_of_list (keys corpus) else out))
      = (if fcard out = 0 then fset_of_list (keys corpus) else out)"
    if "(q, out) \<in> set corpus" for q out
    by simp
  then show ?thesis
    unfolding effective_outbound_def [of "effective_outbound corpus"] keys_effective_outbound
    unfolding effective_outbound_def
    by (simp add: case_prod_unfold)
qed

lemma keys_in_place_step:
  "p \<in> set (keys pr) \<Longrightarrow> keys (in_place_step view d algConst p pr) = keys pr"
  by (simp add: in_place_step_def keys_setitem_present)

lemma page_loop:
  assumes "distinct (keys corpus)" and "keys pr = keys corpus" and "set ps \<subseteq> set (keys pr)"
  shows "for_each ps (page_body d algConst) (corpus, pr)
    = Inr (if ps = [] then corpus else effective_outbound corpus,
           fold (in_place_step (effective_outbound corpus) d algConst) ps pr)"
  using assms
proof (induction ps arbitrary: corpus pr)
  case Nil
  then show ?case by simp
next
  case (Cons p ps)
  let ?view = "effective_outbound corpus"
  let ?pr = "in_place_step ?view d algConst p pr"
  from Cons.prems(3) have p: "p \<in> set (keys pr)" by simp
  have k: "keys ?pr = keys pr" using p by (rule keys_in_place_step)
  have "for_each ps (page_body d algConst) (?view, ?pr)
      = Inr (if ps = [] then ?view else effective_outbound ?view,
             fold (in_place_step (effective_outbound ?view) d algConst) ps ?pr)"
    using Cons.prems by (intro Cons.IH) (simp_all add: k)
  then show ?case
    by (simp add: page_body_eq [OF Cons.prems(1,2)])
qed

lemma total_loop:
  "(\<And>x s. x \<in> set xs \<Longrightarrow> body x s = Inr (f x s)) \<Longrightarrow> for_each xs body s = Inr (fold f xs s)"
  by (induction xs arbitrary: s) simp_all

lemma max_change_of_eq:
  assumes "keys prevRank = keys pageRank"
  shows "max_change_of prevRank pageRank
    = Inr (fold (\<lambda>page max_change.
                   if \<bar>rank_of prevRank page - rank_of pageRank page\<bar> > max_change
                   then \<bar>rank_of prevRank page - rank_of pageRank page\<bar> else max_change)
             (keys pageRank) (- 10000))"
  unfolding max_change_of_def
  by (rule total_loop) (simp add: getitem_present assms)

lemma keys_fold_in_place_step:
  "set ps \<subseteq> set (keys pr) \<Longrightarrow> keys (fold (in_place_step view d algConst) ps pr) = keys pr"
  by (induction ps arbitrary: pr) (simp_all add: keys_in_place_step)

lemma one_pass_eq:
  assumes "distinct (keys corpus)" and "keys pr = keys corpus" and "corpus \<noteq> []"
  shows "one_pass d algConst (corpus, pr)
    = Inr ((effective_outbound corpus,
            fold (in_place_step (effective_outbound corpus) d algConst) (keys pr) pr),
           fold (\<lambda>page max_change.
                   if \<bar>rank_of pr page
                        - rank_of (fold (in_place_step (effective_outbound corpus) d algConst)
                                     (keys pr) pr) page\<bar> > max_change
                   then \<bar>rank_of pr page
                        - rank_of (fold (in_place_step (effective_outbound corpus) d algConst)
                                     (keys pr) pr) page\<bar> else max_change)
             (keys pr) (- 10000))"
proof -
  let ?pr = "fold (in_place_step (effective_outbound corpus) d algConst) (keys pr) pr"
  have k: "keys ?pr = keys pr" by (rule keys_fold_in_place_step) simp
  from assms(2,3) have ne: "keys pr \<noteq> []" by (simp add: keys_def)
  show ?thesis
    unfolding one_pass_def
    by (simp add: page_loop [OF assms(1,2)] ne max_change_of_eq [of pr ?pr, OF k [symmetric]] k)
qed

lemma effective_outbound_empty [simp]: "effective_outbound corpus = [] \<longleftrightarrow> corpus = []"
  by (simp add: effective_outbound_def)

lemma while_loop_graph:
  assumes "while_loop d a s = Some r" and "r = Inr res"
    and "distinct (keys (fst s))" and "keys (snd s) = keys (fst s)" and "fst s \<noteq> []"
  shows "fst res = effective_outbound (fst s)"
  using assms
proof (induction d a s r rule: while_loop.raw_induct [rotated 1, consumes 1])
  case (1 while_loop d a s r)
  obtain corpus pr where s: "s = (corpus, pr)" by (cases s)
  let ?view = "effective_outbound corpus"
  let ?pr = "fold (in_place_step ?view d a) (keys pr) pr"
  from "1.prems" have inv: "distinct (keys corpus)" "keys pr = keys corpus" "corpus \<noteq> []"
    by (simp_all add: s)
  from one_pass_eq [OF inv] obtain mc where pass: "one_pass d a (corpus, pr) = Inr ((?view, ?pr), mc)"
    by blast
  have k: "keys ?pr = keys ?view"
    using inv(2) by (simp add: keys_fold_in_place_step)
  show ?case
  proof (cases "mc < 1 / 1000")
    case True
    with "1.hyps" "1.prems"(1) show ?thesis by (auto simp: s pass)
  next
    case False
    with "1.hyps" have "while_loop d a (?view, ?pr) = Some r" by (simp add: s pass)
    then have "fst res = effective_outbound (fst (?view, ?pr))"
      using "1.prems"(1) inv k by (intro "1.IH") simp_all
    then show ?thesis by (simp add: s)
  qed
qed



lemma iterate_pagerank_eq:
  assumes "distinct (keys corpus)" and "corpus \<noteq> []"
  shows "iterate_pagerank corpus d
    = while_loop d ((1 - d) / real (length corpus))
        (corpus, map (\<lambda>page. (page, 1 / real (length corpus))) (keys corpus))"
  unfolding iterate_pagerank_def initial_probability [OF assms(1)]
  using assms(2) by (simp add: py_div_def Let_def)

lemma iterate_pagerank_Nil: "iterate_pagerank [] d = Some (Inl ZeroDivisionError)"
  by (simp add: iterate_pagerank_def keys_def py_div_def)


text \<open>Unfolding the definitions runs a round of the loop on a given graph.\<close>

lemmas run_defs = one_pass_def page_body_def link_body_def max_change_of_def keys_def getitem_def
  setitem_def py_div_def fcard_finsert_if fcard_fempty Let_def


text \<open>
  Claim C1 says that the iterative estimator leaves the caller's graph as it was. It does
  not: on the graph of one page without links, the page links to itself after the call.
\<close>

theorem iterate_pagerank_mutates_graph:
  "iterate_pagerank [(''a'', {||})] (85 / 100)
     = Some (Inr ([(''a'', {|''a''|})], [(''a'', 1)])) \<and>
   [(''a'', {|''a''|})] \<noteq> [(''a'', {||} :: page fset)]"
proof
  show "iterate_pagerank [(''a'', {||})] (85 / 100)
     = Some (Inr ([(''a'', {|''a''|})], [(''a'', 1)]))"
    by (simp add: iterate_pagerank_def) (subst while_loop.simps, simp add: run_defs)
  show "[(''a'', {|''a''|})] \<noteq> [(''a'', {||} :: page fset)]"
    by simp
qed

text \<open>
  Claim C1, amended. Whenever \<open>iterate_pagerank\<close> returns, the caller's graph has become
  its Effective Outbound View: the keys and their order are unchanged, the outbound set
  of every page that has links is unchanged, and the outbound set of every dangling page
  has been replaced by the set of all pages.
\<close>

theorem iterate_pagerank_rewrites_graph:
  assumes "iterate_pagerank corpus d = Some (Inr (corpus', pageRank))"
    and "distinct (keys corpus)"
  shows "corpus' = effective_outbound corpus"
proof -
  from assms(1) have ne: "corpus \<noteq> []" by (auto simp: iterate_pagerank_Nil)
  let ?pr = "map (\<lambda>page. (page, 1 / real (length corpus))) (keys corpus)"
  from assms(1) have "while_loop d ((1 - d) / real (length corpus)) (corpus, ?pr)
      = Some (Inr (corpus', pageRank))"
    by (simp add: iterate_pagerank_eq [OF assms(2) ne])
  then have "fst (corpus', pageRank) = effective_outbound (fst (corpus, ?pr))"
    by (rule while_loop_graph [OF _ refl]) (use assms(2) ne in \<open>simp_all add: keys_def comp_def\<close>)
  then show ?thesis by simp
qed

theorem iterate_pagerank_rewrites_graph_witness:
  "[(''a'', {|''b''|}), (''b'', {|''a'', ''b''|})] = effective_outbound [(''a'', {|''b''|}), (''b'', {||})]"
proof -
  have "iterate_pagerank [(''a'', {|''b''|}), (''b'', {||})] 0
      = Some (Inr ([(''a'', {|''b''|}), (''b'', {|''a'', ''b''|})], [(''a'', 1 / 2), (''b'', 1 / 2)]))"
    by (simp add: iterate_pagerank_def) (subst while_loop.simps, simp add: run_defs)
  then show ?thesis
    by (rule iterate_pagerank_rewrites_graph) (simp add: keys_def)
qed

text \<open>
  Claim C2 says that a round computes every new rank from the previous vector only. It
  does not: on the graph \<open>a \<rightarrow> b\<close> with \<open>b\<close> dangling and damping \<open>1/2\<close>, the first
  round of the run gives \<open>b\<close> the rank \<open>9/16\<close>, computed from the new rank \<open>3/8\<close> of
  \<open>a\<close>, where the formula on the previous vector gives \<open>5/8\<close>.
\<close>

theorem pass_reads_updated_ranks:
  "iterate_pagerank [(''a'', {|''b''|}), (''b'', {||})] (1 / 2)
     = while_loop (1 / 2) (1 / 4)
         ([(''a'', {|''b''|}), (''b'', {||})], [(''a'', 1 / 2), (''b'', 1 / 2)]) \<and>
   one_pass (1 / 2) (1 / 4) ([(''a'', {|''b''|}), (''b'', {||})], [(''a'', 1 / 2), (''b'', 1 / 2)])
     = Inr (([(''a'', {|''b''|}), (''b'', {|''a'', ''b''|})], [(''a'', 3 / 8), (''b'', 9 / 16)]),
            1 / 8) \<and>
   simultaneous_pass [(''a'', {|''b''|}), (''b'', {||})] (1 / 2) [(''a'', 1 / 2), (''b'', 1 / 2)]
     = [(''a'', 3 / 8), (''b'', 5 / 8)]"
proof (intro conjI)
  show "iterate_pagerank [(''a'', {|''b''|}), (''b'', {||})] (1 / 2)
     = while_loop (1 / 2) (1 / 4)
         ([(''a'', {|''b''|}), (''b'', {||})], [(''a'', 1 / 2), (''b'', 1 / 2)])"
    by (simp add: iterate_pagerank_def keys_def py_div_def setitem_def Let_def)
  show "one_pass (1 / 2) (1 / 4) ([(''a'', {|''b''|}), (''b'', {||})], [(''a'', 1 / 2), (''b'', 1 / 2)])
     = Inr (([(''a'', {|''b''|}), (''b'', {|''a'', ''b''|})], [(''a'', 3 / 8), (''b'', 9 / 16)]),
            1 / 8)"
    by (simp add: run_defs)
  show "simultaneous_pass [(''a'', {|''b''|}), (''b'', {||})] (1 / 2) [(''a'', 1 / 2), (''b'', 1 / 2)]
     = [(''a'', 3 / 8), (''b'', 5 / 8)]"
    by (simp add: simultaneous_pass_def effective_outbound_def incoming_sum_def rank_of_def
        keys_def fcard_finsert_if fcard_fempty)
qed

text \<open>
  Claim C2, amended. In every round of the loop, on a state whose rank vector has the
  keys of a non-empty graph, the pages are updated one after the other in the order of
  the keys, each new rank stored at once: the new rank of \<open>p\<close> is
  \<open>(1 - d) / N + d * sum\<close>, the sum taken over the pages \<open>q\<close> whose effective outbound
  set contains \<open>p\<close> of \<open>rank(q) / |effective-outbound(q)|\<close>, where \<open>rank\<close> is the vector
  as it stands when \<open>p\<close> is reached, already holding the new ranks of the pages before
  \<open>p\<close>.
\<close>

theorem one_pass_updates_in_place:
  assumes "distinct (keys corpus)" and "keys pageRank = keys corpus" and "corpus \<noteq> []"
  shows "\<exists>max_change.
     one_pass d ((1 - d) / real (length corpus)) (corpus, pageRank)
       = Inr ((effective_outbound corpus, in_place_pass corpus d pageRank), max_change)"
proof -
  let ?algConst = "(1 - d) / real (length corpus)"
  let ?view = "effective_outbound corpus"
  from one_pass_eq [OF assms, of d ?algConst] obtain max_change
    where "one_pass d ?algConst (corpus, pageRank)
      = Inr ((?view, fold (in_place_step ?view d ?algConst) (keys pageRank) pageRank), max_change)"
    by blast
  moreover have "fold (in_place_step ?view d ?algConst) (keys pageRank) pageRank
      = in_place_pass corpus d pageRank"
    by (simp add: in_place_pass_def)
  ultimately show ?thesis by auto
qed

theorem one_pass_updates_in_place_witness:
  "\<exists>max_change.
     one_pass (1 / 2) ((1 - 1 / 2) / real (length [(''a'', {|''b''|}), (''b'', {||})]))
       ([(''a'', {|''b''|}), (''b'', {||})], [(''a'', 1 / 2), (''b'', 1 / 2)])
       = Inr ((effective_outbound [(''a'', {|''b''|}), (''b'', {||})],
               in_place_pass [(''a'', {|''b''|}), (''b'', {||})] (1 / 2)
                 [(''a'', 1 / 2), (''b'', 1 / 2)]), max_change)"
  using one_pass_updates_in_place [of "[(''a'', {|''b''|}), (''b'', {||})]"
      "[(''a'', 1 / 2), (''b'', 1 / 2)]" "1 / 2"]
  by (simp add: keys_def)




text \<open>
  Claim C7 says that both estimators reject the empty graph with a descriptive
  configuration error and not with a division by zero. The iterative estimator divides
  by zero, and the sampling estimator fails inside \<open>random.choice\<close>.
\<close>

theorem iterate_pagerank_divides_by_zero:
  "iterate_pagerank [] (85 / 100) = Some (Inl ZeroDivisionError) \<and>
   sample_pagerank [] (85 / 100) 1 (\<lambda>i. 0) = Inl IndexError"
  by (simp add: sample_pagerank_def sample_walk_def random_choice_def iterate_pagerank_def
      keys_def py_div_def)

text \<open>
  Claim C7, amended. On the empty graph neither estimator returns a rank vector: the
  sampling estimator raises \<open>IndexError\<close> at the initial draw, whatever the damping
  factor and the sample count, and the iterative estimator raises \<open>ZeroDivisionError\<close>
  when it computes \<open>(1 - d) / n\<close>.
\<close>

theorem estimators_on_empty_corpus:
  "sample_pagerank [] d n rnd = Inl IndexError \<and>
   iterate_pagerank [] d = Some (Inl ZeroDivisionError)"
  by (simp add: sample_pagerank_def sample_walk_def random_choice_def iterate_pagerank_def
      keys_def py_div_def)

theorem estimators_on_empty_corpus_witness:
  "sample_pagerank [] (85 / 100) 100000 (\<lambda>i. i) = Inl IndexError \<and>
   iterate_pagerank [] (85 / 100) = Some (Inl ZeroDivisionError)"
  using estimators_on_empty_corpus [of "85 / 100" 100000 "\<lambda>i. i"] by simp

end
